theory Spec2Isabelle
  imports Main
begin

section \<open>Values of the provider's JSON and Python's operations on them\<close>

text \<open>
  Raw provider records are what \<^verbatim>\<open>resp.json()\<close> returns: JSON values. A JSON object is an
  association list read with \<open>map_of\<close>. Strings are byte lists holding the UTF-8 encoding.
  JSON numbers are the integers; floating-point numbers are outside the model.
\<close>

datatype json =
    JNull
  | JBool bool
  | JInt int
  | JStr string
  | JList "json list"
  | JObj "(string \<times> json) list"

type_synonym raw = "(string \<times> json) list"

datatype error = TypeError | AttributeError

text \<open>Python's truth value of a JSON value (\<^verbatim>\<open>if x:\<close>).\<close>

fun truthy :: "json \<Rightarrow> bool" where
  "truthy JNull = False"
| "truthy (JBool b) = b"
| "truthy (JInt n) = (n \<noteq> 0)"
| "truthy (JStr s) = (s \<noteq> [])"
| "truthy (JList xs) = (xs \<noteq> [])"
| "truthy (JObj d) = (d \<noteq> [])"

text \<open>\<^verbatim>\<open>d.get(k)\<close>: the value, or \<^verbatim>\<open>None\<close> when the key is absent.\<close>

definition dget :: "raw \<Rightarrow> string \<Rightarrow> json" where
  "dget d k = (case map_of d k of None \<Rightarrow> JNull | Some v \<Rightarrow> v)"

text \<open>\<^verbatim>\<open>a or b\<close>.\<close>

definition py_or :: "json \<Rightarrow> json \<Rightarrow> json" where
  "py_or a b = (if truthy a then a else b)"

text \<open>
  Dictionary keys: lists and dicts are unhashable (using one as a key raises \<^verbatim>\<open>TypeError\<close>);
  among the hashable values \<^verbatim>\<open>True == 1\<close> and \<^verbatim>\<open>False == 0\<close>, so a key is stored under
  \<open>key_of\<close>.
\<close>

fun hashable :: "json \<Rightarrow> bool" where
  "hashable (JList xs) = False"
| "hashable (JObj d) = False"
| "hashable v = True"

fun key_of :: "json \<Rightarrow> json" where
  "key_of (JBool b) = JInt (if b then 1 else 0)"
| "key_of v = v"

text \<open>
  \<^verbatim>\<open>for x in v\<close>: a list gives its elements, a string its characters, a dict its keys;
  \<^verbatim>\<open>None\<close>, booleans and integers are not iterable. (Python iterates a string by code
  point, the model by byte: either way every element is a string.)
\<close>

fun py_iter :: "json \<Rightarrow> error + json list" where
  "py_iter (JList xs) = Inr xs"
| "py_iter (JStr s) = Inr (map (\<lambda>c. JStr [c]) s)"
| "py_iter (JObj d) = Inr (map (\<lambda>kv. JStr (fst kv)) d)"
| "py_iter v = Inl TypeError"

section \<open>The data model\<close>

record team_slot =
  t_id :: json
  t_name :: json
  t_logo :: json
  t_score :: json

record tracked_match =
  m_id :: json
  tournament :: "string option"
  teams :: "team_slot list"
  begin_at_utc :: json
  begin_at_local :: "string option"
  begin_at_local_human :: "string option"
  status :: json
  status_label :: json
  best_of :: json
  last_update :: string

section \<open>The normalizer\<close>

text \<open>The tournament name: lines 170 to 186 of \<^verbatim>\<open>_normalize\<close>.\<close>

definition league_part :: "raw \<Rightarrow> json list" where
  "league_part match =
     (case dget match ''league'' of
        JObj lg \<Rightarrow> if lg \<noteq> [] \<and> truthy (dget lg ''name'') then [dget lg ''name''] else []
      | _ \<Rightarrow> [])"

definition serie_part :: "raw \<Rightarrow> json list" where
  "serie_part match =
     (case dget match ''serie'' of
        JObj se \<Rightarrow>
          (let serie_name = py_or (dget se ''full_name'') (dget se ''season'')
           in if se \<noteq> [] \<and> truthy serie_name then [serie_name] else [])
      | _ \<Rightarrow> [])"

definition tournament_part :: "raw \<Rightarrow> json list" where
  "tournament_part match =
     (case dget match ''tournament'' of
        JObj tn \<Rightarrow> if tn \<noteq> [] \<and> truthy (dget tn ''name'') then [dget tn ''name''] else []
      | _ \<Rightarrow> [])"

definition tournament_parts :: "raw \<Rightarrow> json list" where
  "tournament_parts match =
     (let parts = league_part match @ serie_part match
      in if parts = [] then tournament_part match else parts)"

text \<open>\<^verbatim>\<open>" - ".join(parts)\<close> raises \<^verbatim>\<open>TypeError\<close> on an item that is not a string.\<close>

fun join_parts :: "json list \<Rightarrow> error + string" where
  "join_parts [] = Inr []"
| "join_parts [JStr s] = Inr s"
| "join_parts (JStr s # p # ps) =
     (case join_parts (p # ps) of Inl e \<Rightarrow> Inl e | Inr r \<Rightarrow> Inr (s @ '' - '' @ r))"
| "join_parts (v # ps) = Inl TypeError"

definition tournament_of :: "raw \<Rightarrow> error + string option" where
  "tournament_of match =
     (let parts = tournament_parts match
      in if parts = [] then Inr None
         else (case join_parts parts of Inl e \<Rightarrow> Inl e | Inr s \<Rightarrow> Inr (Some s)))"

text \<open>
  The scores map (lines 189 to 195), a dict kept as an association list whose first
  binding of a key is the current one.
\<close>

fun scores_loop :: "(json \<times> json) list \<Rightarrow> json list \<Rightarrow> error + (json \<times> json) list" where
  "scores_loop scores_map [] = Inr scores_map"
| "scores_loop scores_map (JObj result # rest) =
     (let team_id = dget result ''team_id''; score = dget result ''score''
      in if team_id \<noteq> JNull \<and> score \<noteq> JNull
         then (if hashable team_id
               then scores_loop ((key_of team_id, score) # scores_map) rest
               else Inl TypeError)
         else scores_loop scores_map rest)"
| "scores_loop scores_map (v # rest) = Inl AttributeError"

definition scores_of :: "raw \<Rightarrow> error + (json \<times> json) list" where
  "scores_of match =
     (if truthy (dget match ''results'')
      then (case py_iter (dget match ''results'') of
              Inl e \<Rightarrow> Inl e
            | Inr results \<Rightarrow> scores_loop [] results)
      else Inr [])"

text \<open>The teams (lines 198 to 209).\<close>

definition opp_obj_of :: "json \<Rightarrow> json" where
  "opp_obj_of opp =
     (case opp of
        JObj d \<Rightarrow> if truthy (dget d ''opponent'') then dget d ''opponent'' else opp
      | _ \<Rightarrow> opp)"

definition team_of :: "(json \<times> json) list \<Rightarrow> json \<Rightarrow> error + team_slot" where
  "team_of scores_map opp =
     (case opp_obj_of opp of
        JObj opp_obj \<Rightarrow>
          (let team_id = dget opp_obj ''id''
           in if scores_map \<noteq> [] \<and> \<not> hashable team_id then Inl TypeError
              else Inr \<lparr> t_id = team_id,
                         t_name = dget opp_obj ''name'',
                         t_logo = py_or (dget opp_obj ''image_url'') (dget opp_obj ''logo''),
                         t_score = (if scores_map \<noteq> []
                                    then (case map_of scores_map (key_of team_id) of
                                            None \<Rightarrow> JNull | Some s \<Rightarrow> s)
                                    else JNull) \<rparr>)
      | _ \<Rightarrow> Inl AttributeError)"

fun teams_loop :: "(json \<times> json) list \<Rightarrow> json list \<Rightarrow> error + team_slot list" where
  "teams_loop scores_map [] = Inr []"
| "teams_loop scores_map (opp # rest) =
     (case team_of scores_map opp of
        Inl e \<Rightarrow> Inl e
      | Inr t \<Rightarrow> (case teams_loop scores_map rest of
                    Inl e \<Rightarrow> Inl e
                  | Inr ts \<Rightarrow> Inr (t # ts)))"

definition teams_of :: "(json \<times> json) list \<Rightarrow> raw \<Rightarrow> error + team_slot list" where
  "teams_of scores_map match =
     (case py_iter (case map_of match ''opponents'' of None \<Rightarrow> JList [] | Some v \<Rightarrow> v) of
        Inl e \<Rightarrow> Inl e
      | Inr opps \<Rightarrow> teams_loop scores_map opps)"

text \<open>
  The status label (lines 226 to 233): a dict lookup with the status as key, so an
  unhashable status raises.
\<close>

definition a_venir :: string where
  "a_venir = [CHR 0xC3, CHR 0x80] @ '' venir''"

definition termine :: string where
  "termine = ''Termin'' @ [CHR 0xC3, CHR 0xA9]"

definition annule :: string where
  "annule = ''Annul'' @ [CHR 0xC3, CHR 0xA9]"

definition reporte :: string where
  "reporte = ''Report'' @ [CHR 0xC3, CHR 0xA9]"

definition status_label_of :: "json \<Rightarrow> error + json" where
  "status_label_of st =
     (if \<not> hashable st then Inl TypeError
      else if st = JStr ''not_started'' then Inr (JStr a_venir)
      else if st = JStr ''running'' then Inr (JStr ''En cours'')
      else if st = JStr ''finished'' then Inr (JStr termine)
      else if st = JStr ''canceled'' then Inr (JStr annule)
      else if st = JStr ''postponed'' then Inr (JStr reporte)
      else Inr st)"

text \<open>
  The times (lines 212 to 223). What \<^verbatim>\<open>dateparser.parse\<close>, \<^verbatim>\<open>astimezone(LOCAL_TZ)\<close>,
  \<^verbatim>\<open>isoformat\<close> and \<^verbatim>\<open>strftime\<close> do is outside the repository. The \<^verbatim>\<open>try\<close> block either
  raises before line 220 has assigned \<^verbatim>\<open>begin_local\<close>, or raises between that and the
  assignment of \<^verbatim>\<open>begin_local_human\<close>, or completes; \<^verbatim>\<open>except Exception\<close> catches
  whatever is raised.
\<close>

datatype local_times = No_local | Local_iso string | Local_both string string

fun times_iso :: "local_times \<Rightarrow> string option" where
  "times_iso No_local = None"
| "times_iso (Local_iso l) = Some l"
| "times_iso (Local_both l h) = Some l"

fun times_human :: "local_times \<Rightarrow> string option" where
  "times_human (Local_both l h) = Some h"
| "times_human lt = None"

text \<open>
  \<^verbatim>\<open>_normalize\<close>. Its parameters are \<open>to_local\<close>, the outcome of the \<^verbatim>\<open>try\<close> block on the
  value of \<^verbatim>\<open>begin_at\<close>, and \<open>now\<close>, the value of \<^verbatim>\<open>datetime.now(LOCAL_TZ).isoformat()\<close>
  at the call.
\<close>

definition normalize ::
  "(json \<Rightarrow> local_times) \<Rightarrow> string \<Rightarrow> raw \<Rightarrow> error + tracked_match" where
  "normalize to_local now match =
     (case tournament_of match of
        Inl e \<Rightarrow> Inl e
      | Inr tournament_name \<Rightarrow>
     (case scores_of match of
        Inl e \<Rightarrow> Inl e
      | Inr scores_map \<Rightarrow>
     (case teams_of scores_map match of
        Inl e \<Rightarrow> Inl e
      | Inr team_list \<Rightarrow>
     (let begin_at = dget match ''begin_at'';
          times = (if truthy begin_at then to_local begin_at else No_local)
      in case status_label_of (dget match ''status'') of
           Inl e \<Rightarrow> Inl e
         | Inr label \<Rightarrow>
             Inr \<lparr> m_id = dget match ''id'',
                   tournament = tournament_name,
                   teams = team_list,
                   begin_at_utc = begin_at,
                   begin_at_local = times_iso times,
                   begin_at_local_human = times_human times,
                   status = dget match ''status'',
                   status_label = label,
                   best_of = py_or (dget match ''number_of_games'') (dget match ''match_type''),
                   last_update = now \<rparr>))))"

section \<open>The engine: provider responses, state, UpdateScores and Refresh\<close>

text \<open>
  What one cycle gets from outside: the three provider calls (an empty list or \<open>None\<close>
  covers the missing key, the network error and the non-200 answer alike), the local-time
  conversion, the clock read by the normalization at position \<open>i\<close> of a loop, and the clock
  read at the end of the cycle.
\<close>

record env =
  fetch_upcoming_matches :: "raw list"
  fetch_running_matches :: "raw list"
  fetch_match_by_id :: "json \<Rightarrow> raw option"
  local_time :: "json \<Rightarrow> local_times"
  now_norm :: "nat \<Rightarrow> string"
  now_end :: string

text \<open>
  The module's globals \<^verbatim>\<open>_tracked_matches\<close> and \<^verbatim>\<open>_last_refresh\<close>, and the contents of
  the cache file (\<open>None\<close>: no file). A failing write, which \<^verbatim>\<open>_save_cache\<close> swallows, is
  not modelled.
\<close>

record state =
  tracked_matches :: "tracked_match list"
  last_refresh :: "string option"
  cache_file :: "(tracked_match list \<times> string option) option"

definition save_cache :: "state \<Rightarrow> state" where
  "save_cache st = st\<lparr>cache_file := Some (tracked_matches st, last_refresh st)\<rparr>"

text \<open>\<^verbatim>\<open>{m.get("id"): m for m in running_matches}\<close>: a later record replaces an earlier one.\<close>

fun running_by_id_loop :: "(json \<times> raw) list \<Rightarrow> raw list \<Rightarrow> error + (json \<times> raw) list" where
  "running_by_id_loop acc [] = Inr acc"
| "running_by_id_loop acc (m # ms) =
     (if hashable (dget m ''id'')
      then running_by_id_loop ((key_of (dget m ''id''), m) # acc) ms
      else Inl TypeError)"

definition running_by_id_of :: "raw list \<Rightarrow> error + (json \<times> raw) list" where
  "running_by_id_of running_matches = running_by_id_loop [] running_matches"

text \<open>
  The body of the loop of \<^verbatim>\<open>update_scores\<close> (lines 276 to 310) at position \<open>i\<close>: the new
  contents of the slot, or the exception that ends the cycle.
\<close>

definition update_slot ::
  "env \<Rightarrow> (json \<times> raw) list \<Rightarrow> nat \<Rightarrow> tracked_match \<Rightarrow> error + tracked_match" where
  "update_slot e running_by_id i match =
     (let match_id = m_id match; current_status = status match
      in if \<not> hashable match_id then Inl TypeError
         else (case map_of running_by_id (key_of match_id) of
                 Some fresh_data \<Rightarrow> normalize (local_time e) (now_norm e i) fresh_data
               | None \<Rightarrow>
                   if current_status = JStr ''running''
                   then (case fetch_match_by_id e match_id of
                           Some direct_match \<Rightarrow>
                             if direct_match \<noteq> []
                             then normalize (local_time e) (now_norm e i) direct_match
                             else Inr match
                         | None \<Rightarrow> Inr match)
                   else Inr match))"

text \<open>
  The loop mutates the list in place by index; an exception leaves the slots already
  written as they are.
\<close>

function update_loop ::
  "env \<Rightarrow> (json \<times> raw) list \<Rightarrow> nat \<Rightarrow> tracked_match list \<Rightarrow> tracked_match list \<times> error option" where
  "update_loop e running_by_id i ms =
     (if i < length ms
      then (case update_slot e running_by_id i (ms ! i) of
              Inl err \<Rightarrow> (ms, Some err)
            | Inr m' \<Rightarrow> update_loop e running_by_id (Suc i) (ms[i := m']))
      else (ms, None))"
  by pat_completeness auto
termination
  by (relation "measure (\<lambda>(e, running_by_id, i, ms). length ms - i)") auto

text \<open>
  \<^verbatim>\<open>update_scores\<close>. Line 254 declares only \<^verbatim>\<open>_tracked_matches\<close> global, so the assignment
  of line 312 binds a local name: the global \<^verbatim>\<open>_last_refresh\<close> keeps its value, and
  \<^verbatim>\<open>_save_cache\<close> writes that one. The second component is the exception raised, if any.
\<close>

definition update_scores :: "env \<Rightarrow> state \<Rightarrow> state \<times> error option" where
  "update_scores e st =
     (if tracked_matches st = [] then (st, None)
      else (case running_by_id_of (fetch_running_matches e) of
              Inl err \<Rightarrow> (st, Some err)
            | Inr running_by_id \<Rightarrow>
                (case update_loop e running_by_id 0 (tracked_matches st) of
                   (ms, Some err) \<Rightarrow> (st\<lparr>tracked_matches := ms\<rparr>, Some err)
                 | (ms, None) \<Rightarrow>
                     (let local_last_refresh = now_end e
                      in (save_cache (st\<lparr>tracked_matches := ms\<rparr>), None)))))"

text \<open>\<^verbatim>\<open>[_normalize(m) for m in raw_matches]\<close>.\<close>

fun normalize_all :: "env \<Rightarrow> nat \<Rightarrow> raw list \<Rightarrow> error + tracked_match list" where
  "normalize_all e i [] = Inr []"
| "normalize_all e i (m # ms) =
     (case normalize (local_time e) (now_norm e i) m of
        Inl err \<Rightarrow> Inl err
      | Inr x \<Rightarrow> (case normalize_all e (Suc i) ms of
                    Inl err \<Rightarrow> Inl err
                  | Inr xs \<Rightarrow> Inr (x # xs)))"

definition refresh_matches_list :: "env \<Rightarrow> state \<Rightarrow> state \<times> error option" where
  "refresh_matches_list e st =
     (let raw_matches = fetch_upcoming_matches e
      in if raw_matches \<noteq> []
         then (case normalize_all e 0 raw_matches of
                 Inl err \<Rightarrow> (st, Some err)
               | Inr ms \<Rightarrow>
                   (save_cache (st\<lparr>tracked_matches := ms, last_refresh := Some (now_end e)\<rparr>),
                    None))
         else (st, None))"

section \<open>The endpoints\<close>

definition healthz :: "state \<Rightarrow> string \<times> nat \<times> string option" where
  "healthz st = (''ok'', length (tracked_matches st), last_refresh st)"

definition get_matches :: "state \<Rightarrow> tracked_match list \<times> string option" where
  "get_matches st = (tracked_matches st, last_refresh st)"

text \<open>
  What an f-string prints for a value: \<^verbatim>\<open>str\<close>. The \<^verbatim>\<open>repr\<close> of a list or dict is
  Python's own and a parameter here.
\<close>

definition digit :: "nat \<Rightarrow> char" where
  "digit d = char_of (48 + d)"

function show_nat :: "nat \<Rightarrow> string" where
  "show_nat n = (if n < 10 then [digit n] else show_nat (n div 10) @ [digit (n mod 10)])"
  by pat_completeness auto
termination
  by (relation "measure id") auto

definition show_int :: "int \<Rightarrow> string" where
  "show_int k = (if k < 0 then ''-'' @ show_nat (nat (- k)) else show_nat (nat k))"

definition py_str :: "(json \<Rightarrow> string) \<Rightarrow> json \<Rightarrow> string" where
  "py_str py_repr v =
     (case v of
        JNull \<Rightarrow> ''None''
      | JBool b \<Rightarrow> (if b then ''True'' else ''False'')
      | JInt k \<Rightarrow> show_int k
      | JStr s \<Rightarrow> s
      | _ \<Rightarrow> py_repr v)"

text \<open>\<^verbatim>\<open>s.split(" - ")[0]\<close>: what precedes the first separator, or all of \<open>s\<close>.\<close>

fun before_sep :: "string \<Rightarrow> string" where
  "before_sep [] = []"
| "before_sep (c # cs) = (if take 3 (c # cs) = '' - '' then [] else c # before_sep cs)"

definition bullet :: string where
  "bullet = [CHR 0xE2, CHR 0x80, CHR 0xA2]"

definition icon_not_started :: string where
  "icon_not_started = [CHR 0xE2, CHR 0x8F, CHR 0xB0]"

definition icon_running :: string where
  "icon_running = [CHR 0xF0, CHR 0x9F, CHR 0x94, CHR 0xB4]"

definition icon_finished :: string where
  "icon_finished = [CHR 0xE2, CHR 0x9C, CHR 0x85]"

definition icon_canceled :: string where
  "icon_canceled = [CHR 0xE2, CHR 0x9D, CHR 0x8C]"

definition icon_postponed :: string where
  "icon_postponed = [CHR 0xE2, CHR 0x8F, CHR 0xB8, CHR 0xEF, CHR 0xB8, CHR 0x8F]"

definition icon_default :: string where
  "icon_default = [CHR 0xF0, CHR 0x9F, CHR 0x93, CHR 0x85]"

definition status_icon_of :: "json \<Rightarrow> error + string" where
  "status_icon_of st =
     (if \<not> hashable st then Inl TypeError
      else if st = JStr ''not_started'' then Inr icon_not_started
      else if st = JStr ''running'' then Inr icon_running
      else if st = JStr ''finished'' then Inr icon_finished
      else if st = JStr ''canceled'' then Inr icon_canceled
      else if st = JStr ''postponed'' then Inr icon_postponed
      else Inr icon_default)"

text \<open>
  The body of the loop of \<^verbatim>\<open>get_matches_compact\<close> (lines 425 to 450). A missing team is
  the empty dict \<^verbatim>\<open>{}\<close>, here \<open>None\<close>; the keys \<^verbatim>\<open>name\<close>, \<^verbatim>\<open>begin_at_local_human\<close> and
  \<^verbatim>\<open>tournament\<close> are present in every tracked match, so the defaults of their
  \<^verbatim>\<open>get\<close> are used for a missing team only.
\<close>

definition score_text :: "(json \<Rightarrow> string) \<Rightarrow> json \<Rightarrow> json \<Rightarrow> string" where
  "score_text py_repr score1 score2 =
     (if score1 \<noteq> JNull \<and> score2 \<noteq> JNull
      then ''['' @ py_str py_repr score1 @ ''-'' @ py_str py_repr score2 @ '']''
      else ''vs'')"

definition team_name :: "(json \<Rightarrow> string) \<Rightarrow> team_slot option \<Rightarrow> string" where
  "team_name py_repr team = (case team of None \<Rightarrow> ''?'' | Some t \<Rightarrow> py_str py_repr (t_name t))"

definition team_score :: "team_slot option \<Rightarrow> json" where
  "team_score team = (case team of None \<Rightarrow> JNull | Some t \<Rightarrow> t_score t)"

definition tournament_short :: "tracked_match \<Rightarrow> string" where
  "tournament_short match =
     (case tournament match of
        Some s \<Rightarrow> if s \<noteq> [] then before_sep s else []
      | None \<Rightarrow> [])"

definition human_time :: "tracked_match \<Rightarrow> string" where
  "human_time match = (case begin_at_local_human match of None \<Rightarrow> ''None'' | Some h \<Rightarrow> h)"

definition team_at :: "team_slot list \<Rightarrow> nat \<Rightarrow> team_slot option" where
  "team_at tms k = (if length tms > k then Some (tms ! k) else None)"

definition format_line :: "(json \<Rightarrow> string) \<Rightarrow> tracked_match \<Rightarrow> error + string" where
  "format_line py_repr match =
     (let tms = teams match;
          team1 = team_at tms 0;
          team2 = team_at tms 1;
          score = score_text py_repr (team_score team1) (team_score team2)
      in case status_icon_of (status match) of
           Inl err \<Rightarrow> Inl err
         | Inr status_icon \<Rightarrow>
             Inr (status_icon @ '' '' @ team_name py_repr team1 @ '' '' @ score @ '' ''
                  @ team_name py_repr team2 @ '' '' @ bullet @ '' '' @ human_time match
                  @ '' '' @ bullet @ '' '' @ tournament_short match))"

fun lines_loop :: "(json \<Rightarrow> string) \<Rightarrow> tracked_match list \<Rightarrow> error + string list" where
  "lines_loop py_repr [] = Inr []"
| "lines_loop py_repr (match # rest) =
     (case format_line py_repr match of
        Inl err \<Rightarrow> Inl err
      | Inr line \<Rightarrow> (case lines_loop py_repr rest of
                       Inl err \<Rightarrow> Inl err
                     | Inr lines \<Rightarrow> Inr (line # lines)))"

record compact =
  match1 :: string
  match2 :: string
  match3 :: string
  match4 :: string
  match5 :: string
  c_last_update :: "string option"

definition slot_line :: "string list \<Rightarrow> nat \<Rightarrow> string" where
  "slot_line lines k = (if length lines > k then lines ! k else [])"

definition get_matches_compact :: "(json \<Rightarrow> string) \<Rightarrow> state \<Rightarrow> error + compact" where
  "get_matches_compact py_repr st =
     (if tracked_matches st = []
      then Inr \<lparr> match1 = [], match2 = [], match3 = [], match4 = [], match5 = [],
                 c_last_update = last_refresh st \<rparr>
      else (case lines_loop py_repr (take 5 (tracked_matches st)) of
              Inl err \<Rightarrow> Inl err
            | Inr lines \<Rightarrow>
                Inr \<lparr> match1 = slot_line lines 0, match2 = slot_line lines 1,
                      match3 = slot_line lines 2, match4 = slot_line lines 3,
                      match5 = slot_line lines 4, c_last_update = last_refresh st \<rparr>))"

section \<open>Notions used by the properties\<close>

text \<open>
  The loop of \<^verbatim>\<open>update_scores\<close> once more, by recursion on the slots still to visit. The
  proofs go through it; lemma \<open>update_loop_walk\<close> shows that it computes what
  \<open>update_loop\<close> computes.
\<close>

fun update_walk ::
  "env \<Rightarrow> (json \<times> raw) list \<Rightarrow> nat \<Rightarrow> tracked_match list \<Rightarrow> tracked_match list \<times> error option" where
  "update_walk e running_by_id i [] = ([], None)"
| "update_walk e running_by_id i (m # ms) =
     (case update_slot e running_by_id i m of
        Inl err \<Rightarrow> (m # ms, Some err)
      | Inr m' \<Rightarrow> (m' # fst (update_walk e running_by_id (Suc i) ms),
                   snd (update_walk e running_by_id (Suc i) ms)))"

text \<open>A map from ids to raw records that files every record under its own id.\<close>

definition keyed_by_id :: "(json \<times> raw) list \<Rightarrow> bool" where
  "keyed_by_id rb = (\<forall>p \<in> set rb. key_of (dget (snd p) ''id'') = fst p)"

text \<open>Several update cycles in a row, each with its own provider responses and clock.\<close>

fun update_cycles :: "env list \<Rightarrow> state \<Rightarrow> state" where
  "update_cycles [] st = st"
| "update_cycles (e # es) st = update_cycles es (fst (update_scores e st))"

text \<open>Any sequence of the engine's two operations.\<close>

datatype operation = Refresh env | UpdateScores env

fun run :: "operation list \<Rightarrow> state \<Rightarrow> state" where
  "run [] st = st"
| "run (Refresh e # ops) st = run ops (fst (refresh_matches_list e st))"
| "run (UpdateScores e # ops) st = run ops (fst (update_scores e st))"

definition initial_state :: state where
  "initial_state = \<lparr> tracked_matches = [], last_refresh = None, cache_file = None \<rparr>"

text \<open>
  The ids of a tracked set as Python compares them: \<open>key_of\<close> identifies \<^verbatim>\<open>True\<close> with
  \<^verbatim>\<open>1\<close> and \<^verbatim>\<open>False\<close> with \<^verbatim>\<open>0\<close>.
\<close>

definition ids_of :: "tracked_match list \<Rightarrow> json list" where
  "ids_of ms = map (\<lambda>m. key_of (m_id m)) ms"

definition unique_ids :: "tracked_match list \<Rightarrow> bool" where
  "unique_ids ms = ((\<forall>m \<in> set ms. hashable (m_id m)) \<and> distinct (ids_of ms))"

text \<open>
  What \<^verbatim>\<open>_fetch_match_by_id\<close> is documented to do (it fetches ``un match
  sp\'ecifique par son ID'', through the provider's exact-id filter): a record it returns
  carries the id that was asked for.
\<close>

definition by_id_honest :: "env \<Rightarrow> bool" where
  "by_id_honest e =
     (\<forall>i r. fetch_match_by_id e i = Some r \<longrightarrow> r \<noteq> [] \<longrightarrow> dget r ''id'' = i)"

text \<open>The upcoming feed lists every match once, under a scalar id.\<close>

definition upcoming_unique :: "env \<Rightarrow> bool" where
  "upcoming_unique e =
     ((\<forall>m \<in> set (fetch_upcoming_matches e). hashable (dget m ''id'')) \<and>
      distinct (map (\<lambda>m. key_of (dget m ''id'')) (fetch_upcoming_matches e)))"

fun well_behaved :: "operation \<Rightarrow> bool" where
  "well_behaved (Refresh e) = upcoming_unique e"
| "well_behaved (UpdateScores e) = by_id_honest e"


text \<open>
  Raw records on which every step of \<^verbatim>\<open>_normalize\<close> finds the type it uses: names that
  are strings where they are not empty, results that are a list of objects with scalar
  team ids (or nothing), opponents that are a list of objects, each with a scalar id and
  wrapped or not in an \<^verbatim>\<open>opponent\<close> object (or no key at all), and a scalar status.
\<close>

fun str_or_falsy :: "json \<Rightarrow> bool" where
  "str_or_falsy (JStr s) = True"
| "str_or_falsy v = (\<not> truthy v)"

definition names_ok :: "raw \<Rightarrow> bool" where
  "names_ok match =
     ((case dget match ''league'' of JObj lg \<Rightarrow> str_or_falsy (dget lg ''name'') | _ \<Rightarrow> True) \<and>
      (case dget match ''serie'' of
         JObj se \<Rightarrow> str_or_falsy (dget se ''full_name'') \<and> str_or_falsy (dget se ''season'')
       | _ \<Rightarrow> True) \<and>
      (case dget match ''tournament'' of JObj tn \<Rightarrow> str_or_falsy (dget tn ''name'') | _ \<Rightarrow> True))"

fun result_ok :: "json \<Rightarrow> bool" where
  "result_ok (JObj r) = hashable (dget r ''team_id'')"
| "result_ok v = False"

definition results_ok :: "raw \<Rightarrow> bool" where
  "results_ok match =
     (case dget match ''results'' of
        JList rs \<Rightarrow> list_all result_ok rs
      | v \<Rightarrow> \<not> truthy v)"

fun opponent_ok :: "json \<Rightarrow> bool" where
  "opponent_ok (JObj d) =
     (case dget d ''opponent'' of
        JObj ob \<Rightarrow> if ob = [] then hashable (dget d ''id'') else hashable (dget ob ''id'')
      | v \<Rightarrow> \<not> truthy v \<and> hashable (dget d ''id''))"
| "opponent_ok v = False"

definition opponents_ok :: "raw \<Rightarrow> bool" where
  "opponents_ok match =
     (case map_of match ''opponents'' of
        None \<Rightarrow> True
      | Some (JList os) \<Rightarrow> list_all opponent_ok os
      | Some v \<Rightarrow> False)"

definition raw_ok :: "raw \<Rightarrow> bool" where
  "raw_ok match =
     (names_ok match \<and> results_ok match \<and> opponents_ok match \<and> hashable (dget match ''status''))"

text \<open>
  The tournament string in the specification's words: the league name and the serie
  name (its full name, else its season), joined by \<^verbatim>\<open>" - "\<close>; the tournament's own name
  when there is neither. A name is there when it is a non-empty string.
\<close>

definition spec_name :: "raw \<Rightarrow> string \<Rightarrow> string \<Rightarrow> string option" where
  "spec_name match obj field =
     (case dget match obj of
        JObj d \<Rightarrow> (case dget d field of
                     JStr s \<Rightarrow> if s = [] then None else Some s
                   | _ \<Rightarrow> None)
      | _ \<Rightarrow> None)"

definition spec_serie_name :: "raw \<Rightarrow> string option" where
  "spec_serie_name match =
     (case spec_name match ''serie'' ''full_name'' of
        Some f \<Rightarrow> Some f
      | None \<Rightarrow> spec_name match ''serie'' ''season'')"

definition spec_tournament :: "raw \<Rightarrow> string option" where
  "spec_tournament match =
     (case (spec_name match ''league'' ''name'', spec_serie_name match) of
        (Some l, Some s) \<Rightarrow> Some (l @ '' - '' @ s)
      | (Some l, None) \<Rightarrow> Some l
      | (None, Some s) \<Rightarrow> Some s
      | (None, None) \<Rightarrow> spec_name match ''tournament'' ''name'')"

text \<open>
  The display line in the specification's words:
  \<^verbatim>\<open>"{status_icon} {team1} {score-or-'vs'} {team2} * {local_human_time} * {short_tournament}"\<close>,
  the two stars standing for the bullet U+2022.
\<close>

definition spec_line :: "string \<Rightarrow> string \<Rightarrow> string \<Rightarrow> string \<Rightarrow> string \<Rightarrow> string \<Rightarrow> string" where
  "spec_line icon team1 score team2 local_human short_tournament =
     icon @ '' '' @ team1 @ '' '' @ score @ '' '' @ team2 @ '' '' @ bullet @ '' ''
     @ local_human @ '' '' @ bullet @ '' '' @ short_tournament"

text \<open>The display line of a tracked match, given its status icon.\<close>

definition spec_display :: "(json \<Rightarrow> string) \<Rightarrow> string \<Rightarrow> tracked_match \<Rightarrow> string" where
  "spec_display py_repr icon m =
     spec_line icon
       (team_name py_repr (team_at (teams m) 0))
       (score_text py_repr (team_score (team_at (teams m) 0)) (team_score (team_at (teams m) 1)))
       (team_name py_repr (team_at (teams m) 1))
       (human_time m)
       (tournament_short m)"

section \<open>Concrete inputs\<close>

definition no_local_time :: "json \<Rightarrow> local_times" where
  "no_local_time v = No_local"

definition quiet_env :: env where
  "quiet_env = \<lparr> fetch_upcoming_matches = [], fetch_running_matches = [],
                 fetch_match_by_id = (\<lambda>i. None), local_time = no_local_time,
                 now_norm = (\<lambda>i. ''2024-06-01T18:10:00+02:00''),
                 now_end = ''2024-06-01T18:10:00+02:00'' \<rparr>"

definition match_7 :: tracked_match where
  "match_7 = \<lparr> m_id = JInt 7, tournament = Some ''LFL - Summer 2024'',
               teams = [\<lparr> t_id = JInt 1, t_name = JStr ''KC'', t_logo = JNull, t_score = JNull \<rparr>],
               begin_at_utc = JStr ''2024-06-01T17:00:00Z'',
               begin_at_local = Some ''2024-06-01T19:00:00+02:00'',
               begin_at_local_human = Some ''01/06 19:00'',
               status = JStr ''not_started'', status_label = JStr a_venir,
               best_of = JInt 3, last_update = ''2024-06-01T06:00:00+02:00'' \<rparr>"

definition match_8 :: tracked_match where
  "match_8 = \<lparr> m_id = JInt 8, tournament = Some ''LEC'',
               teams = [\<lparr> t_id = JInt 3, t_name = JStr ''G2'', t_logo = JNull, t_score = JInt 1 \<rparr>,
                        \<lparr> t_id = JInt 4, t_name = JStr ''FNC'', t_logo = JNull, t_score = JInt 0 \<rparr>],
               begin_at_utc = JStr ''2024-06-01T15:00:00Z'',
               begin_at_local = Some ''2024-06-01T17:00:00+02:00'',
               begin_at_local_human = Some ''01/06 17:00'',
               status = JStr ''running'', status_label = JStr ''En cours'',
               best_of = JInt 3, last_update = ''2024-06-01T06:00:00+02:00'' \<rparr>"

definition state_78 :: state where
  "state_78 = \<lparr> tracked_matches = [match_7, match_8],
                last_refresh = Some ''2024-06-01T06:00:00+02:00'',
                cache_file = Some ([match_7, match_8], Some ''2024-06-01T06:00:00+02:00'') \<rparr>"

definition state_six :: state where
  "state_six = \<lparr> tracked_matches = [match_7, match_8, match_7, match_8, match_7, match_8],
                 last_refresh = Some ''2024-06-01T06:00:00+02:00'', cache_file = None \<rparr>"

definition no_repr :: "json \<Rightarrow> string" where
  "no_repr v = []"

definition raw_8_finished :: raw where
  "raw_8_finished =
     [(''id'', JInt 8), (''status'', JStr ''finished''),
      (''league'', JObj [(''name'', JStr ''LEC'')]),
      (''results'', JList [JObj [(''team_id'', JInt 3), (''score'', JInt 2)],
                           JObj [(''team_id'', JInt 4), (''score'', JInt 0)]]),
      (''opponents'', JList [JObj [(''opponent'', JObj [(''id'', JInt 3), (''name'', JStr ''G2'')])],
                             JObj [(''opponent'', JObj [(''id'', JInt 4), (''name'', JStr ''FNC'')])]])]"

definition raw_7_running :: raw where
  "raw_7_running =
     [(''id'', JInt 7), (''status'', JStr ''running''),
      (''league'', JObj [(''name'', JStr ''LFL'')]),
      (''serie'', JObj [(''full_name'', JStr ''Summer 2024'')]),
      (''opponents'', JList [JObj [(''opponent'', JObj [(''id'', JInt 1), (''name'', JStr ''KC'')])]])]"

definition live_env :: env where
  "live_env = \<lparr> fetch_upcoming_matches = [], fetch_running_matches = [raw_7_running],
                fetch_match_by_id = (\<lambda>i. if i = JInt 8 then Some raw_8_finished else None),
                local_time = no_local_time,
                now_norm = (\<lambda>i. ''2024-06-01T18:10:00+02:00''),
                now_end = ''2024-06-01T18:10:01+02:00'' \<rparr>"


definition twice_env :: env where
  "twice_env = \<lparr> fetch_upcoming_matches = [[(''id'', JInt 1)], [(''id'', JInt 1)]],
                 fetch_running_matches = [], fetch_match_by_id = (\<lambda>i. None),
                 local_time = no_local_time,
                 now_norm = (\<lambda>i. ''2024-06-01T06:00:00+02:00''),
                 now_end = ''2024-06-01T06:00:00+02:00'' \<rparr>"

definition upcoming_env :: env where
  "upcoming_env = \<lparr> fetch_upcoming_matches = [raw_7_running, raw_8_finished],
                    fetch_running_matches = [], fetch_match_by_id = (\<lambda>i. None),
                    local_time = no_local_time,
                    now_norm = (\<lambda>i. ''2024-06-01T06:00:00+02:00''),
                    now_end = ''2024-06-01T06:00:00+02:00'' \<rparr>"

definition raw_lfl :: raw where
  "raw_lfl = [(''league'', JObj [(''name'', JStr ''LFL'')]),
              (''serie'', JObj [(''full_name'', JStr ''Summer 2024'')])]"

definition raw_worlds :: raw where
  "raw_worlds = [(''tournament'', JObj [(''name'', JStr ''Worlds'')])]"

definition raw_partial :: raw where
  "raw_partial = [(''id'', JInt 5), (''begin_at'', JStr ''soon''), (''opponents'', JList [])]"

definition raw_null_opponents :: raw where
  "raw_null_opponents = [(''id'', JInt 5), (''opponents'', JNull)]"

definition raw_99_finished :: raw where
  "raw_99_finished = [(''id'', JInt 99), (''status'', JStr ''finished'')]"

definition misfiled_env :: env where
  "misfiled_env = \<lparr> fetch_upcoming_matches = [], fetch_running_matches = [],
                    fetch_match_by_id = (\<lambda>i. if i = JInt 8 then Some raw_99_finished else None),
                    local_time = no_local_time,
                    now_norm = (\<lambda>i. ''2024-06-01T18:10:00+02:00''),
                    now_end = ''2024-06-01T18:10:01+02:00'' \<rparr>"









declare update_loop.simps [simp del]

section \<open>The loop of UpdateScores, slot by slot\<close>

lemma update_loop_walk:
  "i \<le> length ms \<Longrightarrow>
   update_loop e rb i ms =
     (take i ms @ fst (update_walk e rb i (drop i ms)), snd (update_walk e rb i (drop i ms)))"
proof (induction e rb i ms rule: update_loop.induct)
  case (1 e rb i ms)
  show ?case
  proof (cases "i < length ms")
    case False
    then show ?thesis using "1.prems" by (simp add: update_loop.simps)
  next
    case True
    then have d: "drop i ms = ms ! i # drop (Suc i) ms"
      by (simp add: Cons_nth_drop_Suc)
    show ?thesis
    proof (cases "update_slot e rb i (ms ! i)")
      case (Inl err)
      then show ?thesis using True d id_take_nth_drop [OF True]
        by (simp add: update_loop.simps [of e rb i ms])
    next
      case (Inr m')
      have "update_loop e rb (Suc i) (ms[i := m']) =
              (take (Suc i) (ms[i := m']) @ fst (update_walk e rb (Suc i) (drop (Suc i) (ms[i := m']))),
               snd (update_walk e rb (Suc i) (drop (Suc i) (ms[i := m']))))"
        using "1.IH" [OF True Inr] True by simp
      moreover have "take (Suc i) (ms[i := m']) = take i ms @ [m']"
        using True by (simp add: take_Suc_conv_app_nth)
      ultimately show ?thesis using True d Inr
        by (simp add: update_loop.simps [of e rb i ms] split: prod.splits)
    qed
  qed
qed

lemma update_loop_0: "update_loop e rb 0 ms = update_walk e rb 0 ms"
  using update_loop_walk [of 0 ms e rb] by simp

lemma update_walk_length: "length (fst (update_walk e rb i ms)) = length ms"
  by (induction ms arbitrary: i) (auto split: sum.splits)

lemma update_walk_done:
  "snd (update_walk e rb i ms) = None \<Longrightarrow> j < length ms \<Longrightarrow>
   update_slot e rb (i + j) (ms ! j) = Inr (fst (update_walk e rb i ms) ! j)"
proof (induction ms arbitrary: i j)
  case Nil
  then show ?case by simp
next
  case (Cons m ms)
  show ?case
  proof (cases j)
    case 0
    then show ?thesis using Cons.prems by (auto split: sum.splits)
  next
    case (Suc k)
    then show ?thesis using Cons.prems Cons.IH [of "Suc i" k]
      by (auto split: sum.splits)
  qed
qed

lemma update_walk_slot:
  "j < length ms \<Longrightarrow>
   fst (update_walk e rb i ms) ! j = ms ! j \<or>
   update_slot e rb (i + j) (ms ! j) = Inr (fst (update_walk e rb i ms) ! j)"
proof (induction ms arbitrary: i j)
  case Nil
  then show ?case by simp
next
  case (Cons m ms)
  show ?case
  proof (cases j)
    case 0
    then show ?thesis by (auto split: sum.splits)
  next
    case (Suc k)
    then show ?thesis using Cons.prems Cons.IH [of k "Suc i"]
      by (auto split: sum.splits)
  qed
qed


lemma normalize_fields:
  "normalize f t r = Inr m \<Longrightarrow>
   m_id m = dget r ''id'' \<and> status m = dget r ''status'' \<and> last_update m = t \<and>
   begin_at_utc m = dget r ''begin_at''"
  by (auto simp: normalize_def Let_def split: sum.splits)

lemma normalize_status_hashable: "normalize f t r = Inr m \<Longrightarrow> hashable (status m)"
  by (auto simp: normalize_def Let_def status_label_of_def split: sum.splits if_splits)



lemma hashable_key_of: "hashable (key_of a) = hashable a"
  by (cases a) simp_all


lemma running_by_id_loop_keys:
  "running_by_id_loop acc ms = Inr rb \<Longrightarrow> keyed_by_id acc \<Longrightarrow> keyed_by_id rb"
proof (induction ms arbitrary: acc)
  case Nil
  then show ?case by simp
next
  case (Cons m ms)
  show ?case
  proof (cases "hashable (dget m ''id'')")
    case True
    have "keyed_by_id ((key_of (dget m ''id''), m) # acc)"
      using Cons.prems(2) by (simp add: keyed_by_id_def)
    then show ?thesis using Cons.IH Cons.prems(1) True by simp
  next
    case False
    then show ?thesis using Cons.prems(1) by simp
  qed
qed

lemma running_by_id_keyed: "running_by_id_of ms = Inr rb \<Longrightarrow> keyed_by_id rb"
  using running_by_id_loop_keys [of "[]" ms rb] by (simp add: running_by_id_of_def keyed_by_id_def)

lemma keyed_by_id_lookup:
  assumes "keyed_by_id rb" and "map_of rb k = Some m"
  shows "key_of (dget m ''id'') = k"
proof -
  have "(k, m) \<in> set rb" using assms(2) by (rule map_of_SomeD)
  moreover have "\<forall>p \<in> set rb. key_of (dget (snd p) ''id'') = fst p"
    using assms(1) by (simp add: keyed_by_id_def)
  ultimately have "key_of (dget (snd (k, m)) ''id'') = fst (k, m)" by blast
  then show ?thesis by simp
qed

lemma find_app:
  "List.find P (xs @ ys) = (case List.find P xs of None \<Rightarrow> List.find P ys | Some x \<Rightarrow> Some x)"
  by (induction xs) auto

lemma running_by_id_loop_lookup:
  "running_by_id_loop acc ms = Inr rb \<Longrightarrow>
   map_of rb k =
     (case List.find (\<lambda>m. key_of (dget m ''id'') = k) (rev ms) of
        Some m \<Rightarrow> Some m | None \<Rightarrow> map_of acc k)"
proof (induction ms arbitrary: acc)
  case Nil
  then show ?case by simp
next
  case (Cons m ms)
  then show ?case
    by (auto simp: find_app split: if_splits option.splits)
qed

lemma running_by_id_lookup:
  "running_by_id_of ms = Inr rb \<Longrightarrow>
   map_of rb k = List.find (\<lambda>m. key_of (dget m ''id'') = k) (rev ms)"
  using running_by_id_loop_lookup [of "[]" ms rb k]
  by (auto simp: running_by_id_of_def split: option.splits)

lemma update_slot_id:
  assumes "by_id_honest e" and "keyed_by_id rb"
    and "update_slot e rb i m = Inr m'"
  shows "key_of (m_id m') = key_of (m_id m)"
proof (cases "map_of rb (key_of (m_id m))")
  case (Some fresh)
  then have "key_of (dget fresh ''id'') = key_of (m_id m)"
    using assms(2) by (simp add: keyed_by_id_lookup)
  moreover have "normalize (local_time e) (now_norm e i) fresh = Inr m'"
    using assms(3) Some by (auto simp: update_slot_def Let_def split: if_splits)
  ultimately show ?thesis by (simp add: normalize_fields)
next
  case None
  show ?thesis
  proof (cases "status m = JStr ''running'' \<and>
                (\<exists>d. fetch_match_by_id e (m_id m) = Some d \<and> d \<noteq> [])")
    case True
    then obtain d where d: "fetch_match_by_id e (m_id m) = Some d" "d \<noteq> []" by blast
    then have "normalize (local_time e) (now_norm e i) d = Inr m'"
      using assms(3) None True by (auto simp: update_slot_def Let_def split: if_splits)
    moreover have "dget d ''id'' = m_id m"
      using assms(1) d by (simp add: by_id_honest_def)
    ultimately show ?thesis by (simp add: normalize_fields)
  next
    case False
    then have "m' = m"
      using assms(3) None
      by (auto simp: update_slot_def Let_def split: if_splits option.splits)
    then show ?thesis by simp
  qed
qed


section \<open>UpdateScores as a whole\<close>

lemma update_scores_tracked:
  "tracked_matches st \<noteq> [] \<Longrightarrow> running_by_id_of (fetch_running_matches e) = Inr rb \<Longrightarrow>
   tracked_matches (fst (update_scores e st)) = fst (update_walk e rb 0 (tracked_matches st)) \<and>
   snd (update_scores e st) = snd (update_walk e rb 0 (tracked_matches st))"
  by (cases "update_walk e rb 0 (tracked_matches st)")
     (auto simp: update_scores_def update_loop_0 save_cache_def Let_def split: option.splits)

lemma update_scores_empty: "tracked_matches st = [] \<Longrightarrow> update_scores e st = (st, None)"
  by (simp add: update_scores_def)

lemma update_scores_bad_feed:
  "running_by_id_of (fetch_running_matches e) = Inl err \<Longrightarrow> fst (update_scores e st) = st"
  by (simp add: update_scores_def)

lemma update_scores_length:
  "length (tracked_matches (fst (update_scores e st))) = length (tracked_matches st)"
proof (cases "tracked_matches st = []")
  case True
  then show ?thesis by (simp add: update_scores_empty)
next
  case False
  show ?thesis
  proof (cases "running_by_id_of (fetch_running_matches e)")
    case (Inl err)
    then show ?thesis by (simp add: update_scores_bad_feed)
  next
    case (Inr rb)
    then show ?thesis using False by (simp add: update_scores_tracked update_walk_length)
  qed
qed


lemma update_walk_ids:
  assumes "by_id_honest e" and "keyed_by_id rb"
  shows "ids_of (fst (update_walk e rb i ms)) = ids_of ms"
proof (induction ms arbitrary: i)
  case Nil
  then show ?case by simp
next
  case (Cons m ms)
  then show ?case
    using update_slot_id [OF assms]
    by (auto simp: ids_of_def split: sum.splits)
qed

lemma update_scores_ids:
  assumes "by_id_honest e"
  shows "ids_of (tracked_matches (fst (update_scores e st))) = ids_of (tracked_matches st)"
proof (cases "tracked_matches st = []")
  case True
  then show ?thesis by (simp add: update_scores_empty)
next
  case False
  show ?thesis
  proof (cases "running_by_id_of (fetch_running_matches e)")
    case (Inl err)
    then show ?thesis by (simp add: update_scores_bad_feed)
  next
    case (Inr rb)
    then have "keyed_by_id rb" by (rule running_by_id_keyed)
    then show ?thesis
      using Inr False assms by (simp add: update_scores_tracked update_walk_ids)
  qed
qed

lemma by_id_honest_quiet: "by_id_honest quiet_env"
  by (simp add: by_id_honest_def quiet_env_def)

lemma by_id_honest_live: "by_id_honest live_env"
  by (simp add: by_id_honest_def live_env_def raw_8_finished_def dget_def)

lemma live_running_by_id:
  "running_by_id_of (fetch_running_matches live_env) = Inr [(JInt 7, raw_7_running)]"
  by (simp add: running_by_id_of_def live_env_def raw_7_running_def dget_def)


lemma live_update_done: "snd (update_scores live_env state_78) = None"
  by code_simp

lemma live_update_status:
  "status (tracked_matches (fst (update_scores live_env state_78)) ! 1) = JStr ''finished''"
  by code_simp

section \<open>A second cycle on the same provider data\<close>





section \<open>Ids across Refresh and UpdateScores\<close>

lemma unique_ids_by_keys:
  "unique_ids ms = ((\<forall>k \<in> set (ids_of ms). hashable k) \<and> distinct (ids_of ms))"
  by (simp add: unique_ids_def ids_of_def hashable_key_of)

lemma normalize_all_ids:
  "normalize_all e i raws = Inr ms \<Longrightarrow> map m_id ms = map (\<lambda>r. dget r ''id'') raws"
proof (induction raws arbitrary: i ms)
  case Nil
  then show ?case by simp
next
  case (Cons r raws)
  then obtain x xs where x: "normalize (local_time e) (now_norm e i) r = Inr x"
    and xs: "normalize_all e (Suc i) raws = Inr xs" and ms: "ms = x # xs"
    by (auto split: sum.splits)
  have "m_id x = dget r ''id''" using x by (simp add: normalize_fields)
  then show ?case using Cons.IH [OF xs] ms by simp
qed

lemma refresh_unique_ids:
  assumes "upcoming_unique e" and "unique_ids (tracked_matches st)"
  shows "unique_ids (tracked_matches (fst (refresh_matches_list e st)))"
proof (cases "fetch_upcoming_matches e = []")
  case True
  then show ?thesis using assms(2) by (simp add: refresh_matches_list_def)
next
  case False
  show ?thesis
  proof (cases "normalize_all e 0 (fetch_upcoming_matches e)")
    case (Inl err)
    then show ?thesis using False assms(2) by (simp add: refresh_matches_list_def)
  next
    case (Inr ms)
    have t: "tracked_matches (fst (refresh_matches_list e st)) = ms"
      using False Inr by (simp add: refresh_matches_list_def save_cache_def)
    have "ids_of ms = map (\<lambda>r. key_of (dget r ''id'')) (fetch_upcoming_matches e)"
      using normalize_all_ids [OF Inr] by (simp add: ids_of_def flip: map_map [of key_of m_id, unfolded comp_def])
    then show ?thesis using assms(1) t
      by (auto simp: unique_ids_by_keys upcoming_unique_def hashable_key_of)
  qed
qed

lemma update_unique_ids:
  assumes "by_id_honest e" and "unique_ids (tracked_matches st)"
  shows "unique_ids (tracked_matches (fst (update_scores e st)))"
  using assms by (simp add: unique_ids_by_keys update_scores_ids)

lemma upcoming_unique_upcoming: "upcoming_unique upcoming_env"
  by (simp add: upcoming_unique_def upcoming_env_def raw_7_running_def raw_8_finished_def dget_def)

section \<open>The normalizer, step by step\<close>

lemma dget_Nil: "dget [] k = JNull"
  by (simp add: dget_def)

lemma join_bad_head: "\<forall>s. v \<noteq> JStr s \<Longrightarrow> join_parts (v # ps) = Inl TypeError"
  by (cases v) simp_all

lemma join_bad_second: "\<forall>s. v \<noteq> JStr s \<Longrightarrow> join_parts (JStr a # v # ps) = Inl TypeError"
  by (simp add: join_bad_head)

lemma named_part_cases:
  "(if d \<noteq> [] \<and> truthy (dget d ''name'') then [dget d ''name''] else []) = [] \<and>
     (case dget d ''name'' of JStr s \<Rightarrow> if s = [] then None else Some s | _ \<Rightarrow> None) = None \<or>
   (\<exists>s. (if d \<noteq> [] \<and> truthy (dget d ''name'') then [dget d ''name''] else []) = [JStr s] \<and>
     (case dget d ''name'' of JStr s \<Rightarrow> if s = [] then None else Some s | _ \<Rightarrow> None) = Some s) \<or>
   (\<exists>v. (if d \<noteq> [] \<and> truthy (dget d ''name'') then [dget d ''name''] else []) = [v] \<and>
     (\<forall>s. v \<noteq> JStr s))"
proof (cases "d = []")
  case True
  then show ?thesis by (simp add: dget_Nil)
next
  case False
  then show ?thesis by (cases "dget d ''name''") simp_all
qed

lemma league_part_cases:
  "(league_part match = [] \<and> spec_name match ''league'' ''name'' = None) \<or>
   (\<exists>s. league_part match = [JStr s] \<and> spec_name match ''league'' ''name'' = Some s) \<or>
   (\<exists>v. league_part match = [v] \<and> (\<forall>s. v \<noteq> JStr s))"
proof (cases "dget match ''league''")
  case (JObj d)
  then show ?thesis using named_part_cases [of d] by (simp add: league_part_def spec_name_def)
qed (simp_all add: league_part_def spec_name_def)

lemma tournament_part_cases:
  "(tournament_part match = [] \<and> spec_name match ''tournament'' ''name'' = None) \<or>
   (\<exists>s. tournament_part match = [JStr s] \<and> spec_name match ''tournament'' ''name'' = Some s) \<or>
   (\<exists>v. tournament_part match = [v] \<and> (\<forall>s. v \<noteq> JStr s))"
proof (cases "dget match ''tournament''")
  case (JObj d)
  then show ?thesis using named_part_cases [of d] by (simp add: tournament_part_def spec_name_def)
qed (simp_all add: tournament_part_def spec_name_def)


lemma value_cases:
  "(\<not> truthy v \<and> (case v of JStr s \<Rightarrow> if s = [] then None else Some s | _ \<Rightarrow> None) = None) \<or>
   (\<exists>s. v = JStr s \<and> s \<noteq> []) \<or>
   (truthy v \<and> (\<forall>s. v \<noteq> JStr s) \<and>
      (case v of JStr s \<Rightarrow> if s = [] then None else Some s | _ \<Rightarrow> None) = None)"
  by (cases v) simp_all

lemma serie_part_cases:
  "(serie_part match = [] \<and> spec_serie_name match = None) \<or>
   (\<exists>s. serie_part match = [JStr s] \<and> spec_serie_name match = Some s) \<or>
   (\<exists>v. serie_part match = [v] \<and> (\<forall>s. v \<noteq> JStr s))"
proof (cases "dget match ''serie''")
  case (JObj se)
  show ?thesis
  proof (cases "se = []")
    case True
    then show ?thesis using JObj
      by (simp add: serie_part_def spec_serie_name_def spec_name_def py_or_def dget_Nil)
  next
    case False
    show ?thesis
    proof (cases "truthy (dget se ''full_name'')")
      case True
      then show ?thesis using value_cases [of "dget se ''full_name''"] JObj False
        by (auto simp: serie_part_def spec_serie_name_def spec_name_def py_or_def)
    next
      case no_full: False
      then have "spec_name match ''serie'' ''full_name'' = None"
        using value_cases [of "dget se ''full_name''"] JObj by (auto simp: spec_name_def)
      then show ?thesis using value_cases [of "dget se ''season''"] JObj False no_full
        by (auto simp: serie_part_def spec_serie_name_def spec_name_def py_or_def)
    qed
  qed
qed (simp_all add: serie_part_def spec_serie_name_def spec_name_def)

lemma tournament_of_spec:
  assumes "tournament_of match = Inr t"
  shows "t = spec_tournament match"
  using league_part_cases [of match]
proof (elim disjE exE conjE)
  assume lp: "league_part match = []" and ls: "spec_name match ''league'' ''name'' = None"
  from serie_part_cases [of match] show ?thesis
  proof (elim disjE exE conjE)
    assume sp: "serie_part match = []" and ss: "spec_serie_name match = None"
    from tournament_part_cases [of match] show ?thesis
    proof (elim disjE exE conjE)
      assume tp: "tournament_part match = []"
        and ts: "spec_name match ''tournament'' ''name'' = None"
      have "t = None"
      using assms lp sp tp by (simp add: tournament_of_def tournament_parts_def)
    moreover have "spec_tournament match = None"
      using ls ss ts by (simp add: spec_tournament_def)
    ultimately show ?thesis by simp
    next
      fix n assume tp: "tournament_part match = [JStr n]"
        and ts: "spec_name match ''tournament'' ''name'' = Some n"
      have "t = Some n"
      using assms lp sp tp by (simp add: tournament_of_def tournament_parts_def)
    moreover have "spec_tournament match = Some n"
      using ls ss ts by (simp add: spec_tournament_def)
    ultimately show ?thesis by simp
    next
      fix v assume "tournament_part match = [v]" "\<forall>s. v \<noteq> JStr s"
      then show ?thesis using assms lp sp
        by (simp add: tournament_of_def tournament_parts_def join_bad_head)
    qed
  next
    fix s assume sp: "serie_part match = [JStr s]" and ss: "spec_serie_name match = Some s"
    have "t = Some s"
      using assms lp sp by (simp add: tournament_of_def tournament_parts_def)
    moreover have "spec_tournament match = Some s"
      using ls ss by (simp add: spec_tournament_def)
    ultimately show ?thesis by simp
  next
    fix v assume "serie_part match = [v]" "\<forall>s. v \<noteq> JStr s"
    then show ?thesis using assms lp
      by (simp add: tournament_of_def tournament_parts_def join_bad_head)
  qed
next
  fix l assume lp: "league_part match = [JStr l]"
    and ls: "spec_name match ''league'' ''name'' = Some l"
  from serie_part_cases [of match] show ?thesis
  proof (elim disjE exE conjE)
    assume sp: "serie_part match = []" and ss: "spec_serie_name match = None"
    have "t = Some l"
      using assms lp sp by (simp add: tournament_of_def tournament_parts_def)
    moreover have "spec_tournament match = Some l"
      using ls ss by (simp add: spec_tournament_def)
    ultimately show ?thesis by simp
  next
    fix s assume sp: "serie_part match = [JStr s]" and ss: "spec_serie_name match = Some s"
    have "t = Some (l @ '' - '' @ s)"
      using assms lp sp by (simp add: tournament_of_def tournament_parts_def)
    moreover have "spec_tournament match = Some (l @ '' - '' @ s)"
      using ls ss by (simp add: spec_tournament_def)
    ultimately show ?thesis by simp
  next
    fix v assume sp: "serie_part match = [v]" and bad: "\<forall>s. v \<noteq> JStr s"
    have "join_parts [JStr l, v] = Inl TypeError" using bad by (rule join_bad_second)
    then show ?thesis using assms lp sp
      by (simp add: tournament_of_def tournament_parts_def del: join_parts.simps)
  qed
next
  fix v assume "league_part match = [v]" "\<forall>s. v \<noteq> JStr s"
  then show ?thesis using assms
    by (simp add: tournament_of_def tournament_parts_def join_bad_head)
qed

lemma str_or_falsy_cases: "str_or_falsy v \<Longrightarrow> truthy v \<Longrightarrow> \<exists>s. v = JStr s"
  by (cases v) simp_all

lemma league_part_ok: "names_ok match \<Longrightarrow> p \<in> set (league_part match) \<Longrightarrow> \<exists>s. p = JStr s"
  by (cases "dget match ''league''")
     (auto simp: names_ok_def league_part_def dest: str_or_falsy_cases split: if_splits)

lemma tournament_part_ok:
  "names_ok match \<Longrightarrow> p \<in> set (tournament_part match) \<Longrightarrow> \<exists>s. p = JStr s"
  by (cases "dget match ''tournament''")
     (auto simp: names_ok_def tournament_part_def dest: str_or_falsy_cases split: if_splits)

lemma serie_part_ok: "names_ok match \<Longrightarrow> p \<in> set (serie_part match) \<Longrightarrow> \<exists>s. p = JStr s"
  by (cases "dget match ''serie''")
     (auto simp: names_ok_def serie_part_def py_or_def Let_def dest: str_or_falsy_cases
      split: if_splits)

lemma join_strs: "\<forall>p \<in> set ps. \<exists>s. p = JStr s \<Longrightarrow> \<exists>r. join_parts ps = Inr r"
proof (induction ps rule: join_parts.induct)
  case (3 s p ps)
  then show ?case by (auto split: sum.splits)
qed auto

lemma tournament_of_ok:
  assumes "names_ok match"
  shows "tournament_of match = Inr (spec_tournament match)"
proof -
  have "\<forall>p \<in> set (tournament_parts match). \<exists>s. p = JStr s"
    using league_part_ok [OF assms] serie_part_ok [OF assms] tournament_part_ok [OF assms]
    by (auto simp: tournament_parts_def Let_def split: if_splits)
  then obtain r where "join_parts (tournament_parts match) = Inr r"
    using join_strs by blast
  then obtain t where "tournament_of match = Inr t"
    by (cases "tournament_parts match = []") (auto simp: tournament_of_def Let_def)
  then show ?thesis using tournament_of_spec by simp
qed


lemma scores_loop_ok: "list_all result_ok rs \<Longrightarrow> \<exists>sm'. scores_loop sm rs = Inr sm'"
proof (induction rs arbitrary: sm)
  case Nil
  then show ?case by simp
next
  case (Cons r rs)
  then show ?case by (cases r) (simp_all add: Let_def)
qed

lemma scores_of_ok: "results_ok match \<Longrightarrow> \<exists>sm. scores_of match = Inr sm"
  by (cases "dget match ''results''") (simp_all add: results_ok_def scores_of_def scores_loop_ok)

lemma scores_of_missing: "dget match ''results'' = JNull \<Longrightarrow> scores_of match = Inr []"
  by (simp add: scores_of_def)

lemma team_of_ok: "opponent_ok opp \<Longrightarrow> \<exists>t. team_of sm opp = Inr t"
proof (cases opp)
  case (JObj d)
  assume "opponent_ok opp"
  then show ?thesis using JObj
    by (cases "dget d ''opponent''") (auto simp: team_of_def opp_obj_of_def Let_def split: if_splits)
qed simp_all

lemma teams_loop_ok: "list_all opponent_ok os \<Longrightarrow> \<exists>ts. teams_loop sm os = Inr ts"
proof (induction os)
  case Nil
  then show ?case by simp
next
  case (Cons opp os)
  then obtain t ts where "team_of sm opp = Inr t" "teams_loop sm os = Inr ts"
    using team_of_ok [of opp sm] by auto
  then show ?case by simp
qed

lemma teams_of_ok: "opponents_ok match \<Longrightarrow> \<exists>ts. teams_of sm match = Inr ts"
  by (auto simp: opponents_ok_def teams_of_def teams_loop_ok split: option.splits json.splits)

lemma teams_loop_length: "teams_loop sm os = Inr ts \<Longrightarrow> length ts = length os"
  by (induction os arbitrary: ts) (auto split: sum.splits)

lemma teams_loop_no_scores: "teams_loop [] os = Inr ts \<Longrightarrow> \<forall>t \<in> set ts. t_score t = JNull"
proof (induction os arbitrary: ts)
  case Nil
  then show ?case by simp
next
  case (Cons opp os)
  then show ?case
    by (auto simp: team_of_def Let_def split: sum.splits json.splits)
qed

lemma status_label_ok: "hashable st \<Longrightarrow> \<exists>l. status_label_of st = Inr l"
  by (simp add: status_label_of_def)

lemma normalize_ok: "raw_ok match \<Longrightarrow> \<exists>m. normalize f t match = Inr m"
proof -
  assume ok: "raw_ok match"
  then have "tournament_of match = Inr (spec_tournament match)"
    by (simp add: raw_ok_def tournament_of_ok)
  moreover obtain sm where "scores_of match = Inr sm"
    using ok scores_of_ok by (auto simp: raw_ok_def)
  moreover obtain ts where "teams_of sm match = Inr ts"
    using ok teams_of_ok by (auto simp: raw_ok_def)
  moreover obtain l where "status_label_of (dget match ''status'') = Inr l"
    using ok status_label_ok by (auto simp: raw_ok_def)
  ultimately show ?thesis by (simp add: normalize_def Let_def)
qed

lemma normalize_tournament: "normalize f t match = Inr m \<Longrightarrow> tournament m = spec_tournament match"
proof -
  assume n: "normalize f t match = Inr m"
  then obtain tn where tn: "tournament_of match = Inr tn"
    by (cases "tournament_of match") (simp_all add: normalize_def)
  then have "tournament m = tn"
    using n by (auto simp: normalize_def Let_def split: sum.splits)
  then show ?thesis using tournament_of_spec [OF tn] by simp
qed

lemma normalize_times:
  "normalize f t match = Inr m \<Longrightarrow>
   \<not> truthy (dget match ''begin_at'') \<or> f (dget match ''begin_at'') = No_local \<Longrightarrow>
   begin_at_local m = None \<and> begin_at_local_human m = None"
  by (auto simp: normalize_def Let_def split: sum.splits)

lemma normalize_teams:
  "normalize f t match = Inr m \<Longrightarrow>
   \<exists>sm. scores_of match = Inr sm \<and> teams_of sm match = Inr (teams m)"
  by (auto simp: normalize_def Let_def split: sum.splits)

lemma normalize_no_opponents:
  assumes "normalize f t match = Inr m"
    and "map_of match ''opponents'' = None \<or> map_of match ''opponents'' = Some (JList [])"
  shows "teams m = []"
  using normalize_teams [OF assms(1)] assms(2) by (auto simp: teams_of_def)

lemma normalize_no_results:
  assumes "normalize f t match = Inr m" and "dget match ''results'' = JNull"
  shows "\<forall>tm \<in> set (teams m). t_score tm = JNull"
proof -
  have "teams_of [] match = Inr (teams m)"
    using normalize_teams [OF assms(1)] scores_of_missing [OF assms(2)] by simp
  then obtain os where "teams_loop [] os = Inr (teams m)"
    by (auto simp: teams_of_def split: sum.splits)
  then show ?thesis by (rule teams_loop_no_scores)
qed

section \<open>When an update cycle completes\<close>

text \<open>
  No exception ends the cycle when the tracked ids are scalars, the records of the
  running feed have scalar ids, and they and the by-id answers are \<open>raw_ok\<close>.
\<close>

lemma running_by_id_loop_from:
  "running_by_id_loop acc ms = Inr rb \<Longrightarrow> map_of rb k = Some r \<Longrightarrow>
   r \<in> set ms \<or> map_of acc k = Some r"
proof (induction ms arbitrary: acc)
  case Nil
  then show ?case by simp
next
  case (Cons m ms)
  show ?case
  proof (cases "hashable (dget m ''id'')")
    case True
    then have "running_by_id_loop ((key_of (dget m ''id''), m) # acc) ms = Inr rb"
      using Cons.prems(1) by simp
    from Cons.IH [OF this Cons.prems(2)] show ?thesis
      by (auto split: if_splits)
  next
    case False
    then show ?thesis using Cons.prems(1) by simp
  qed
qed

lemma running_by_id_from:
  "running_by_id_of ms = Inr rb \<Longrightarrow> map_of rb k = Some r \<Longrightarrow> r \<in> set ms"
  using running_by_id_loop_from [of "[]" ms rb k r] by (simp add: running_by_id_of_def)

lemma running_by_id_loop_ok:
  "\<forall>m \<in> set ms. hashable (dget m ''id'') \<Longrightarrow> \<exists>rb. running_by_id_loop acc ms = Inr rb"
  by (induction ms arbitrary: acc) simp_all

lemma update_slot_ok:
  assumes "hashable (m_id m)"
    and "\<And>r. map_of rb (key_of (m_id m)) = Some r \<Longrightarrow> raw_ok r"
    and "\<And>r. fetch_match_by_id e (m_id m) = Some r \<Longrightarrow> raw_ok r"
  shows "\<exists>m'. update_slot e rb i m = Inr m'"
proof (cases "map_of rb (key_of (m_id m))")
  case (Some fresh)
  then show ?thesis
    using assms(1) normalize_ok [OF assms(2) [OF Some], of "local_time e" "now_norm e i"]
    by (simp add: update_slot_def)
next
  case None
  show ?thesis
  proof (cases "fetch_match_by_id e (m_id m)")
    case no: None
    then show ?thesis using None assms(1) by (simp add: update_slot_def)
  next
    case (Some d)
    then show ?thesis
      using None assms(1) normalize_ok [OF assms(3) [OF Some], of "local_time e" "now_norm e i"]
      by (simp add: update_slot_def)
  qed
qed

lemma update_walk_completes:
  assumes "\<forall>m \<in> set ms. hashable (m_id m)"
    and "\<And>k r. map_of rb k = Some r \<Longrightarrow> raw_ok r"
    and "\<And>k r. fetch_match_by_id e k = Some r \<Longrightarrow> raw_ok r"
  shows "snd (update_walk e rb i ms) = None"
  using assms(1)
proof (induction ms arbitrary: i)
  case Nil
  then show ?case by simp
next
  case (Cons m ms)
  obtain m' where "update_slot e rb i m = Inr m'"
    using update_slot_ok [of m rb e i] Cons.prems assms(2,3) by auto
  then show ?case using Cons by simp
qed

lemma update_scores_completes:
  assumes "\<forall>m \<in> set (tracked_matches st). hashable (m_id m)"
    and "\<forall>r \<in> set (fetch_running_matches e). hashable (dget r ''id'') \<and> raw_ok r"
    and "\<And>k r. fetch_match_by_id e k = Some r \<Longrightarrow> raw_ok r"
  shows "snd (update_scores e st) = None"
proof (cases "tracked_matches st = []")
  case True
  then show ?thesis by (simp add: update_scores_empty)
next
  case False
  obtain rb where rb: "running_by_id_of (fetch_running_matches e) = Inr rb"
    using running_by_id_loop_ok [of "fetch_running_matches e" "[]"] assms(2)
    by (auto simp: running_by_id_of_def)
  have ok: "\<And>k r. map_of rb k = Some r \<Longrightarrow> raw_ok r"
    using running_by_id_from [OF rb] assms(2) by blast
  have "snd (update_walk e rb 0 (tracked_matches st)) = None"
    by (rule update_walk_completes [OF assms(1)]) (auto intro: ok assms(3))
  then show ?thesis using update_scores_tracked [OF False rb] by simp
qed

section \<open>The compact endpoint\<close>

lemma status_icon_ok: "hashable st \<Longrightarrow> \<exists>icon. status_icon_of st = Inr icon"
  by (simp add: status_icon_of_def)

lemma format_line_spec:
  "status_icon_of (status m) = Inr icon \<Longrightarrow> format_line py_repr m = Inr (spec_display py_repr icon m)"
  by (simp add: format_line_def spec_display_def spec_line_def Let_def)

lemma missing_team_name: "length tms \<le> k \<Longrightarrow> team_name py_repr (team_at tms k) = ''?''"
  by (simp add: team_name_def team_at_def)

lemma normalized_has_icon:
  "normalize f t r = Inr m \<Longrightarrow> \<exists>icon. status_icon_of (status m) = Inr icon"
  using normalize_status_hashable status_icon_ok by blast

lemma display_7:
  "spec_display no_repr icon_not_started match_7 =
     icon_not_started @ '' KC vs ? '' @ bullet @ '' 01/06 19:00 '' @ bullet @ '' LFL''"
  by code_simp

lemma display_8:
  "spec_display no_repr icon_running match_8 =
     icon_running @ '' G2 [1-0] FNC '' @ bullet @ '' 01/06 17:00 '' @ bullet @ '' LEC''"
  by code_simp

lemma take_5_empty: "take 5 xs = take 5 ys \<Longrightarrow> (xs = []) = (ys = [])"
  by (metis take_eq_Nil zero_neq_numeral)

section \<open>Two cycles on concrete provider data\<close>








section \<open>C1: the timestamp of an update cycle\<close>

text \<open>
  C1 says that after UpdateScores on a non-empty tracked set, \<open>last_refresh\<close>, as the
  engine's state, \<^verbatim>\<open>GET /healthz\<close> and \<^verbatim>\<open>GET /lol/matches\<close> show it, is the time of that
  cycle, and that the set and that timestamp are persisted. The code does not do that:
  \<^verbatim>\<open>update_scores\<close> assigns a local \<^verbatim>\<open>_last_refresh\<close>. On a set of two matches refreshed at
  06:00 and a cycle that ends at 18:10, the state, both endpoints and the cache file
  still carry 06:00.
\<close>

theorem update_scores_leaves_last_refresh:
  "tracked_matches state_78 \<noteq> [] \<and>
   snd (update_scores quiet_env state_78) = None \<and>
   now_end quiet_env = ''2024-06-01T18:10:00+02:00'' \<and>
   last_refresh (fst (update_scores quiet_env state_78)) = Some ''2024-06-01T06:00:00+02:00'' \<and>
   healthz (fst (update_scores quiet_env state_78)) =
     (''ok'', 2, Some ''2024-06-01T06:00:00+02:00'') \<and>
   snd (get_matches (fst (update_scores quiet_env state_78))) =
     Some ''2024-06-01T06:00:00+02:00'' \<and>
   cache_file (fst (update_scores quiet_env state_78)) =
     Some ([match_7, match_8], Some ''2024-06-01T06:00:00+02:00'')"
  by (simp add: update_scores_def quiet_env_def state_78_def running_by_id_of_def
      update_loop_0 update_slot_def match_7_def match_8_def save_cache_def healthz_def
      get_matches_def)

section \<open>C2: what UpdateScores does to each slot\<close>

text \<open>
  C2: when an update cycle on a tracked set completes, the set has as many slots as
  before, and the slot at every position \<open>i\<close> is: the normalization of the fresh record,
  if the slot's id is in the map built from the running feed; otherwise, if the status
  stored in the slot is \<^verbatim>\<open>running\<close>, the normalization of the record that the by-id fetch
  returns, or the slot as it was when that fetch returns nothing (\<open>None\<close>, or a record
  with no field at all, which Python also takes for false); otherwise the slot as it was.
  Lemma \<open>update_scores_completes\<close> says when a cycle completes.
\<close>

theorem update_scores_slot_by_slot:
  assumes "update_scores e st = (st', None)"
    and "running_by_id_of (fetch_running_matches e) = Inr rb"
    and "i < length (tracked_matches st)"
  shows "length (tracked_matches st') = length (tracked_matches st) \<and>
    (\<forall>fresh. map_of rb (key_of (m_id (tracked_matches st ! i))) = Some fresh \<longrightarrow>
       normalize (local_time e) (now_norm e i) fresh = Inr (tracked_matches st' ! i)) \<and>
    (map_of rb (key_of (m_id (tracked_matches st ! i))) = None \<longrightarrow>
       (if status (tracked_matches st ! i) = JStr ''running''
        then (case fetch_match_by_id e (m_id (tracked_matches st ! i)) of
                Some direct \<Rightarrow>
                  if direct = [] then tracked_matches st' ! i = tracked_matches st ! i
                  else normalize (local_time e) (now_norm e i) direct = Inr (tracked_matches st' ! i)
              | None \<Rightarrow> tracked_matches st' ! i = tracked_matches st ! i)
        else tracked_matches st' ! i = tracked_matches st ! i))"
proof -
  have ne: "tracked_matches st \<noteq> []" using assms(3) by auto
  have t: "tracked_matches st' = fst (update_walk e rb 0 (tracked_matches st))"
    and s: "snd (update_walk e rb 0 (tracked_matches st)) = None"
    using update_scores_tracked [OF ne assms(2)] assms(1) by simp_all
  have slot: "update_slot e rb i (tracked_matches st ! i) = Inr (tracked_matches st' ! i)"
    using update_walk_done [OF s assms(3)] t by simp
  have len: "length (tracked_matches st') = length (tracked_matches st)"
    using t by (simp add: update_walk_length)
  show ?thesis
    using slot len
    by (auto simp: update_slot_def Let_def split: if_splits option.splits)
qed

theorem update_scores_slot_by_slot_witness:
  "update_scores live_env state_78 = (fst (update_scores live_env state_78), None) \<and>
   running_by_id_of (fetch_running_matches live_env) = Inr [(JInt 7, raw_7_running)] \<and>
   normalize no_local_time ''2024-06-01T18:10:00+02:00'' raw_7_running =
     Inr (tracked_matches (fst (update_scores live_env state_78)) ! 0) \<and>
   normalize no_local_time ''2024-06-01T18:10:00+02:00'' raw_8_finished =
     Inr (tracked_matches (fst (update_scores live_env state_78)) ! 1) \<and>
   status (tracked_matches (fst (update_scores live_env state_78)) ! 1) = JStr ''finished''"
proof -
  have u: "update_scores live_env state_78 = (fst (update_scores live_env state_78), None)"
    using live_update_done by (simp add: prod_eq_iff)
  have "normalize no_local_time ''2024-06-01T18:10:00+02:00'' raw_7_running =
     Inr (tracked_matches (fst (update_scores live_env state_78)) ! 0)"
    using update_scores_slot_by_slot [OF u live_running_by_id, of 0]
    by (simp add: state_78_def match_7_def live_env_def)
  moreover have "normalize no_local_time ''2024-06-01T18:10:00+02:00'' raw_8_finished =
     Inr (tracked_matches (fst (update_scores live_env state_78)) ! 1)"
    using update_scores_slot_by_slot [OF u live_running_by_id, of 1]
    by (simp add: state_78_def match_8_def live_env_def raw_8_finished_def)
  ultimately show ?thesis using u live_running_by_id live_update_status by simp
qed

section \<open>C3: Refresh on an empty fetch\<close>

text \<open>
  C3: if the fetch of upcoming matches returns no match, Refresh returns the state it
  was given: the tracked set, \<open>last_refresh\<close> and the contents of the cache file are as
  they were, whatever the tracked set was.
\<close>

theorem refresh_empty_fetch_is_noop:
  "fetch_upcoming_matches e = [] \<Longrightarrow> refresh_matches_list e st = (st, None)"
  by (simp add: refresh_matches_list_def)

theorem refresh_empty_fetch_is_noop_witness:
  "fetch_upcoming_matches quiet_env = [] \<and> tracked_matches state_78 \<noteq> [] \<and>
   refresh_matches_list quiet_env state_78 = (state_78, None)"
  using refresh_empty_fetch_is_noop [of quiet_env state_78]
  by (simp add: quiet_env_def state_78_def)

section \<open>C4: where the normalizer returns\<close>

text \<open>
  C4 as stated, for every raw record, fields of unexpected type included, fails: on a
  record whose \<^verbatim>\<open>opponents\<close> is \<^verbatim>\<open>null\<close> the loop of line 199 raises \<^verbatim>\<open>TypeError\<close>.
\<close>

theorem normalize_raises_on_null_opponents:
  "normalize no_local_time ''2024-06-01T06:00:00+02:00'' raw_null_opponents = Inl TypeError"
  by code_simp

text \<open>
  C4, amended: on every raw record whose fields have the types that \<^verbatim>\<open>_normalize\<close> uses
  (\<open>raw_ok\<close>), whatever is missing from it, the normalizer returns a tracked match. It
  carries the record's id, status and \<^verbatim>\<open>begin_at\<close>, the tournament string of the
  specification, and the time of the call; a timestamp that does not parse leaves both
  local times empty, missing or empty opponents leave no team, and missing results
  leave every score empty.
\<close>

theorem normalize_total_on_well_typed:
  assumes "raw_ok match"
  shows "\<exists>m. normalize to_local now match = Inr m \<and>
           m_id m = dget match ''id'' \<and>
           tournament m = spec_tournament match \<and>
           begin_at_utc m = dget match ''begin_at'' \<and>
           status m = dget match ''status'' \<and>
           last_update m = now \<and>
           (to_local (dget match ''begin_at'') = No_local \<longrightarrow>
              begin_at_local m = None \<and> begin_at_local_human m = None) \<and>
           (map_of match ''opponents'' = None \<longrightarrow> teams m = []) \<and>
           (map_of match ''opponents'' = Some (JList []) \<longrightarrow> teams m = []) \<and>
           (dget match ''results'' = JNull \<longrightarrow> (\<forall>tm \<in> set (teams m). t_score tm = JNull))"
proof -
  obtain m where m: "normalize to_local now match = Inr m"
    using normalize_ok [OF assms] by blast
  show ?thesis
    using m normalize_fields [OF m] normalize_tournament [OF m] normalize_times [OF m]
      normalize_no_opponents [OF m] normalize_no_results [OF m]
    by simp
qed

theorem normalize_total_on_well_typed_witness:
  "raw_ok raw_partial \<and>
   normalize no_local_time ''2024-06-01T06:00:00+02:00'' raw_partial =
     Inr \<lparr> m_id = JInt 5, tournament = None, teams = [], begin_at_utc = JStr ''soon'',
           begin_at_local = None, begin_at_local_human = None, status = JNull,
           status_label = JNull, best_of = JNull, last_update = ''2024-06-01T06:00:00+02:00'' \<rparr>"
proof -
  have ok: "raw_ok raw_partial"
    by (simp add: raw_ok_def names_ok_def results_ok_def opponents_ok_def raw_partial_def dget_def)
  obtain m where m: "normalize no_local_time ''2024-06-01T06:00:00+02:00'' raw_partial = Inr m"
    and f: "m_id m = dget raw_partial ''id''" "tournament m = spec_tournament raw_partial"
      "begin_at_utc m = dget raw_partial ''begin_at''"
    using normalize_total_on_well_typed [OF ok, of no_local_time "''2024-06-01T06:00:00+02:00''"]
    by blast
  have "normalize no_local_time ''2024-06-01T06:00:00+02:00'' raw_partial =
     Inr \<lparr> m_id = JInt 5, tournament = None, teams = [], begin_at_utc = JStr ''soon'',
           begin_at_local = None, begin_at_local_human = None, status = JNull,
           status_label = JNull, best_of = JNull, last_update = ''2024-06-01T06:00:00+02:00'' \<rparr>"
    by code_simp
  then show ?thesis using ok by simp
qed

section \<open>C5: the tournament string\<close>

text \<open>
  C5: whenever the normalizer returns, the tournament of its result is the league name
  and the serie name (full name, else season) joined by \<^verbatim>\<open>" - "\<close>, or the tournament's
  own name when there is neither (\<open>spec_tournament\<close>); the derivation itself returns on
  every record whose names are strings. A league \<^verbatim>\<open>LFL\<close> with the serie
  \<^verbatim>\<open>Summer 2024\<close> gives \<^verbatim>\<open>LFL - Summer 2024\<close>, and a record with only the tournament name
  \<^verbatim>\<open>Worlds\<close> gives \<^verbatim>\<open>Worlds\<close>.
\<close>

theorem tournament_is_league_and_serie:
  "(normalize to_local now match = Inr m \<longrightarrow> tournament m = spec_tournament match) \<and>
   (names_ok match \<longrightarrow> tournament_of match = Inr (spec_tournament match)) \<and>
   (\<exists>m. normalize to_local now raw_lfl = Inr m \<and> tournament m = Some ''LFL - Summer 2024'') \<and>
   (\<exists>m. normalize to_local now raw_worlds = Inr m \<and> tournament m = Some ''Worlds'')"
proof -
  have "raw_ok raw_lfl"
    by (simp add: raw_ok_def names_ok_def results_ok_def opponents_ok_def raw_lfl_def dget_def)
  then obtain m1 where m1: "normalize to_local now raw_lfl = Inr m1"
    using normalize_ok by blast
  have "spec_tournament raw_lfl = Some ''LFL - Summer 2024''"
    by (simp add: spec_tournament_def spec_serie_name_def spec_name_def raw_lfl_def dget_def)
  then have 1: "tournament m1 = Some ''LFL - Summer 2024''"
    using normalize_tournament [OF m1] by simp
  have "raw_ok raw_worlds"
    by (simp add: raw_ok_def names_ok_def results_ok_def opponents_ok_def raw_worlds_def dget_def)
  then obtain m2 where m2: "normalize to_local now raw_worlds = Inr m2"
    using normalize_ok by blast
  have "spec_tournament raw_worlds = Some ''Worlds''"
    by (simp add: spec_tournament_def spec_serie_name_def spec_name_def raw_worlds_def dget_def)
  then have 2: "tournament m2 = Some ''Worlds''"
    using normalize_tournament [OF m2] by simp
  show ?thesis using m1 1 m2 2 normalize_tournament tournament_of_ok by blast
qed

theorem tournament_is_league_and_serie_witness:
  "names_ok raw_lfl \<and>
   tournament_of raw_lfl = Inr (Some ''LFL - Summer 2024'') \<and>
   normalize no_local_time ''2024-06-01T06:00:00+02:00'' raw_worlds =
     Inr \<lparr> m_id = JNull, tournament = Some ''Worlds'', teams = [], begin_at_utc = JNull,
           begin_at_local = None, begin_at_local_human = None, status = JNull,
           status_label = JNull, best_of = JNull, last_update = ''2024-06-01T06:00:00+02:00'' \<rparr> \<and>
   spec_tournament raw_worlds = Some ''Worlds''"
proof -
  have ok: "names_ok raw_lfl"
    by (simp add: names_ok_def raw_lfl_def dget_def)
  have n: "normalize no_local_time ''2024-06-01T06:00:00+02:00'' raw_worlds =
     Inr \<lparr> m_id = JNull, tournament = Some ''Worlds'', teams = [], begin_at_utc = JNull,
           begin_at_local = None, begin_at_local_human = None, status = JNull,
           status_label = JNull, best_of = JNull, last_update = ''2024-06-01T06:00:00+02:00'' \<rparr>"
    by code_simp
  have s: "spec_tournament raw_lfl = Some ''LFL - Summer 2024''"
    by (simp add: spec_tournament_def spec_serie_name_def spec_name_def raw_lfl_def dget_def)
  note t = tournament_is_league_and_serie [of no_local_time "''2024-06-01T06:00:00+02:00''"]
  have "tournament_of raw_lfl = Inr (spec_tournament raw_lfl)"
    using t [of raw_lfl] ok by blast
  moreover have "spec_tournament raw_worlds = Some ''Worlds''"
    using t [of raw_worlds] n by fastforce
  ultimately show ?thesis using ok n s by simp
qed

section \<open>C6: a second update cycle with the same provider data\<close>




section \<open>C7: update cycles keep the order of the tracked set\<close>

text \<open>
  C7 as stated, for every sequence of update cycles, fails: lines 298 to 301 store what
  the by-id fetch returns without looking at its id. When the fetch for the id 8 returns
  a match of id 99, a cycle that completes leaves the ids 7 and 99 where 7 and 8 were.
\<close>

theorem update_cycle_can_change_an_id:
  "snd (update_scores misfiled_env state_78) = None \<and>
   ids_of (tracked_matches state_78) = [JInt 7, JInt 8] \<and>
   ids_of (tracked_matches (update_cycles [misfiled_env] state_78)) = [JInt 7, JInt 99]"
  by code_simp

text \<open>
  C7, amended: after any number of update cycles the tracked set has the length it had
  after the last Refresh (nothing is inserted or removed), and, provided that the
  provider answers a by-id fetch with the match that was asked for, the match at every
  position has the id it had there. Ids are compared as Python compares them.
\<close>

theorem update_cycles_keep_order:
  "length (tracked_matches (update_cycles es st)) = length (tracked_matches st) \<and>
   ((\<forall>e \<in> set es. by_id_honest e) \<longrightarrow>
      ids_of (tracked_matches (update_cycles es st)) = ids_of (tracked_matches st))"
  by (induction es arbitrary: st) (simp_all add: update_scores_length update_scores_ids)

theorem update_cycles_keep_order_witness:
  "by_id_honest live_env \<and> by_id_honest quiet_env \<and>
   length (tracked_matches (update_cycles [live_env, quiet_env] state_78)) = 2 \<and>
   ids_of (tracked_matches (update_cycles [live_env, quiet_env] state_78)) = [JInt 7, JInt 8]"
  using update_cycles_keep_order [of "[live_env, quiet_env]" state_78]
    by_id_honest_quiet by_id_honest_live
  by (simp add: state_78_def ids_of_def match_7_def match_8_def)

section \<open>C8: ids in the tracked set\<close>

text \<open>
  C8 as stated, for arbitrary provider responses, fails: a Refresh whose upcoming feed
  lists the id 1 twice leaves a tracked set with two entries of id 1.
\<close>

theorem refresh_can_repeat_an_id:
  "ids_of (tracked_matches (run [Refresh twice_env] initial_state)) = [JInt 1, JInt 1] \<and>
   \<not> unique_ids (tracked_matches (run [Refresh twice_env] initial_state))"
  by (simp add: refresh_matches_list_def twice_env_def initial_state_def normalize_def
      tournament_of_def tournament_parts_def league_part_def serie_part_def tournament_part_def
      scores_of_def teams_of_def status_label_of_def dget_def no_local_time_def py_or_def
      save_cache_def unique_ids_def ids_of_def)

text \<open>
  C8, amended: starting from a tracked set whose ids are scalars, no two of them equal,
  every sequence of Refresh and UpdateScores operations leads to such a tracked set,
  provided that each upcoming feed lists every match once, under a scalar id, and that
  the provider answers a by-id fetch with the match that was asked for.
\<close>

theorem unique_ids_with_a_well_behaved_provider:
  "unique_ids (tracked_matches st) \<Longrightarrow> \<forall>op \<in> set ops. well_behaved op \<Longrightarrow>
   unique_ids (tracked_matches (run ops st))"
proof (induction ops arbitrary: st)
  case Nil
  then show ?case by simp
next
  case (Cons op ops)
  show ?case
  proof (cases op)
    case (Refresh e)
    then show ?thesis using Cons by (simp add: refresh_unique_ids)
  next
    case (UpdateScores e)
    then show ?thesis using Cons by (simp add: update_unique_ids)
  qed
qed

theorem unique_ids_with_a_well_behaved_provider_witness:
  "unique_ids (tracked_matches initial_state) \<and>
   well_behaved (Refresh upcoming_env) \<and> well_behaved (UpdateScores live_env) \<and>
   unique_ids (tracked_matches (run [Refresh upcoming_env, UpdateScores live_env] initial_state))"
  using unique_ids_with_a_well_behaved_provider
          [of initial_state "[Refresh upcoming_env, UpdateScores live_env]"]
    upcoming_unique_upcoming by_id_honest_live
  by (simp add: initial_state_def unique_ids_def ids_of_def)

section \<open>C9: the compact endpoint on two matches\<close>

text \<open>
  C9: for a tracked set of exactly two matches, \<^verbatim>\<open>GET /lol/matches/compact\<close> answers with
  \<^verbatim>\<open>match3\<close>, \<^verbatim>\<open>match4\<close> and \<^verbatim>\<open>match5\<close> empty, and with \<^verbatim>\<open>match1\<close> and \<^verbatim>\<open>match2\<close> the
  display line of the first and of the second match, in the format of the
  specification (\<open>spec_display\<close>, \<open>spec_line\<close>); a match with fewer than two teams shows
  \<^verbatim>\<open>?\<close> for the second. The status of a tracked match is a scalar (every normalized
  record has one), so that it has an icon.
\<close>

theorem compact_of_two_matches:
  assumes "tracked_matches st = [a, b]"
    and "status_icon_of (status a) = Inr icon_a"
    and "status_icon_of (status b) = Inr icon_b"
  shows "get_matches_compact py_repr st =
           Inr \<lparr> match1 = spec_display py_repr icon_a a, match2 = spec_display py_repr icon_b b,
                 match3 = [], match4 = [], match5 = [], c_last_update = last_refresh st \<rparr> \<and>
         (length (teams a) < 2 \<longrightarrow> team_name py_repr (team_at (teams a) 1) = ''?'') \<and>
         (length (teams b) < 2 \<longrightarrow> team_name py_repr (team_at (teams b) 1) = ''?'')"
  using assms
  by (simp add: get_matches_compact_def format_line_spec slot_line_def missing_team_name)

theorem compact_of_two_matches_witness:
  "tracked_matches state_78 = [match_7, match_8] \<and>
   status_icon_of (status match_7) = Inr icon_not_started \<and>
   status_icon_of (status match_8) = Inr icon_running \<and>
   length (teams match_7) < 2 \<and>
   get_matches_compact no_repr state_78 =
     Inr \<lparr> match1 = icon_not_started @ '' KC vs ? '' @ bullet @ '' 01/06 19:00 '' @ bullet @ '' LFL'',
           match2 = icon_running @ '' G2 [1-0] FNC '' @ bullet @ '' 01/06 17:00 '' @ bullet @ '' LEC'',
           match3 = [], match4 = [], match5 = [],
           c_last_update = Some ''2024-06-01T06:00:00+02:00'' \<rparr>"
proof -
  have t: "tracked_matches state_78 = [match_7, match_8]" by (simp add: state_78_def)
  have a: "status_icon_of (status match_7) = Inr icon_not_started"
    by (simp add: status_icon_of_def match_7_def)
  have b: "status_icon_of (status match_8) = Inr icon_running"
    by (simp add: status_icon_of_def match_8_def)
  have l: "length (teams match_7) < 2" by (simp add: match_7_def)
  have r: "last_refresh state_78 = Some ''2024-06-01T06:00:00+02:00''" by (simp add: state_78_def)
  show ?thesis
    using compact_of_two_matches [OF t a b, of no_repr] t a b l r display_7 display_8
    by simp
qed

section \<open>C10: the compact endpoint reads five entries\<close>

text \<open>
  C10: the answer of \<^verbatim>\<open>GET /lol/matches/compact\<close> depends on the first five entries of
  the tracked set only (and on \<open>last_refresh\<close>): two states that agree on them get the
  same answer, whatever follows position 4.
\<close>

theorem compact_reads_first_five:
  assumes "take 5 (tracked_matches s1) = take 5 (tracked_matches s2)"
    and "last_refresh s1 = last_refresh s2"
  shows "get_matches_compact py_repr s1 = get_matches_compact py_repr s2"
  using assms take_5_empty [OF assms(1)]
  by (simp add: get_matches_compact_def split: sum.splits)

theorem compact_reads_first_five_witness:
  "take 5 (tracked_matches state_six) = take 5 [match_7, match_8, match_7, match_8, match_7] \<and>
   length (tracked_matches state_six) = 6 \<and>
   get_matches_compact no_repr state_six =
     get_matches_compact no_repr
       (state_six\<lparr>tracked_matches := [match_7, match_8, match_7, match_8, match_7]\<rparr>)"
  using compact_reads_first_five
          [of state_six "state_six\<lparr>tracked_matches := [match_7, match_8, match_7, match_8, match_7]\<rparr>" no_repr]
  by (simp add: state_six_def)

end
